theory Spec2Isabelle
  imports Main "HOL-Library.AList" "HOL-Library.Sublist"
begin

section \<open>The WhatsApp socket manager\<close>

text \<open>
  A shallow embedding of \<^verbatim>\<open>src/modules/whatsapp/WhatsAppSocketManager.ts\<close>.

  The class keeps three fields that matter: the map \<^verbatim>\<open>sockets\<close> (session name to
  socket), the object \<^verbatim>\<open>connectionUpdateSubjects\<close> (session name to rxjs Subject) and the
  path \<^verbatim>\<open>tokensFolder\<close>. Its methods also act on things outside the class: the files on
  disk, seen from the working directory of the process, the transport library
  (\<^verbatim>\<open>makeWASocket\<close>), and the observers subscribed to the subjects. All of it is one
  record, passed through every method and returned updated.

  \<^item> A socket is identified by the number of the \<^verbatim>\<open>makeWASocket\<close> call that made it.
  \<^item> A path is the list of its segments from the root, with POSIX separators. The disk
    is a list of paths, each a directory or a \<^verbatim>\<open>creds.json\<close> file with its content.
  \<^item> A Subject is the list of its observers; what each observer was handed is logged in
    \<^verbatim>\<open>delivered\<close>, in order.
  \<^item> A method runs until its first \<^verbatim>\<open>await\<close>; what follows the \<^verbatim>\<open>await\<close> is a task
    in \<^verbatim>\<open>pending\<close> that runs later, after any number of other calls and events.
\<close>

subsection \<open>Data\<close>

type_synonym WASocket = nat
type_synonym creds = nat
type_synonym observer = nat

text \<open>The transport's \<^verbatim>\<open>WAConnectionState = 'open' | 'connecting' | 'close'\<close>.\<close>

datatype WAConnectionState = Open | Connecting | Close

text \<open>
  \<^verbatim>\<open>Partial<ConnectionState>\<close>: every field may be absent. Of \<^verbatim>\<open>lastDisconnect\<close> the
  manager reads only \<^verbatim>\<open>(lastDisconnect?.error as Boom)?.output?.statusCode\<close>, so that
  is the field kept.
\<close>

record ConnectionState =
  connection :: "WAConnectionState option"
  statusCode :: "int option"
  qr :: "string option"

text \<open>
  The two members of the transport library's \<^verbatim>\<open>DisconnectReason\<close> enumeration that the
  manager compares with, at the library's values.
\<close>

definition loggedOut :: int where
  "loggedOut = 401"

definition restartRequired :: int where
  "restartRequired = 515"

datatype error =
  AlreadyExists | TypeError | ENOENT | ENOTDIR | ENAMETOOLONG | EINVAL | NotADirectory

text \<open>
  How a returned Promise stands when the call has run as far as it can: resolved,
  rejected, or never settled.
\<close>

datatype settlement = Resolved | Rejected error | Pending

type_synonym path = "string list"

datatype node = Dir | File creds

type_synonym filesystem = "(path \<times> node) list"

record manager =
  sockets :: "string \<rightharpoonup> WASocket"
  connectionUpdateSubjects :: "string \<rightharpoonup> observer list"
  tokensFolder :: path
  cwd :: path
  files :: filesystem
  opened :: "(string \<times> creds option) list"
  ended :: "WASocket list"
  delivered :: "(observer \<times> ConnectionState) list"
  pending :: "(string \<times> ConnectionState option) list"

text \<open>
  \<^verbatim>\<open>opened\<close> logs the calls of \<^verbatim>\<open>makeWASocket\<close>: entry \<open>h\<close> holds the session name that
  the listeners registered on socket \<open>h\<close> have captured, and the credentials it was opened
  with (\<open>None\<close> for freshly initialised ones). \<^verbatim>\<open>ended\<close> lists the sockets that have
  emitted their \<^verbatim>\<open>close\<close> update; the transport emits nothing after it. \<^verbatim>\<open>pending\<close>
  holds the calls of \<^verbatim>\<open>createSocketWhatsApp\<close> suspended at their \<^verbatim>\<open>await\<close>: the name,
  and the update that \<^verbatim>\<open>handleConnectionUpdate\<close> will emit afterwards when the call is
  its reconnection.
\<close>

subsection \<open>Paths\<close>

text \<open>The segments of a path string, split at every \<^verbatim>\<open>/\<close>.\<close>

fun splitPath :: "string \<Rightarrow> string list" where
  "splitPath [] = [] # []"
| "splitPath (c # cs) =
     (if c = CHR ''/'' then [] # splitPath cs
      else (case splitPath cs of [] \<Rightarrow> [c] # [] | s # ss \<Rightarrow> (c # s) # ss))"

text \<open>
  Following segments from a directory: empty segments and \<^verbatim>\<open>.\<close> stay, \<^verbatim>\<open>..\<close> goes up
  (the root is its own parent). This is what \<^verbatim>\<open>path.resolve\<close> and \<^verbatim>\<open>path.join\<close> compute
  on the text, and where a walk through existing directories arrives.
\<close>

fun resolveSegs :: "path \<Rightarrow> string list \<Rightarrow> path" where
  "resolveSegs p [] = p"
| "resolveSegs p (s # ss) =
     (if s = [] \<or> s = ''.'' then resolveSegs p ss
      else if s = ''..'' then resolveSegs (butlast p) ss
      else resolveSegs (p @ [s]) ss)"

definition isAbsolute :: "string \<Rightarrow> bool" where
  "isAbsolute s = (case s of [] \<Rightarrow> False | c # _ \<Rightarrow> c = CHR ''/'')"

text \<open>\<^verbatim>\<open>path.resolve(base, s)\<close> for an absolute \<^verbatim>\<open>base\<close>: an absolute \<^verbatim>\<open>s\<close> replaces it.\<close>

definition pathResolve :: "path \<Rightarrow> string \<Rightarrow> path" where
  "pathResolve base s =
     (if isAbsolute s then resolveSegs [] (splitPath s) else resolveSegs base (splitPath s))"

text \<open>
  The relative path \<^verbatim>\<open>'tokens/' + name\<close> that \<^verbatim>\<open>createSocketWhatsApp\<close> passes on, as segments,
  and the folder it denotes for a process in the working directory \<^verbatim>\<open>wd\<close>.
\<close>

definition authSegments :: "string \<Rightarrow> string list" where
  "authSegments name = splitPath (''tokens/'' @ name)"

definition authFolder :: "path \<Rightarrow> string \<Rightarrow> path" where
  "authFolder wd name = resolveSegs wd (authSegments name)"

text \<open>A session name that is one segment of a path, and names a folder.\<close>

definition plainName :: "string \<Rightarrow> bool" where
  "plainName name = (name \<noteq> [] \<and> CHR ''/'' \<notin> set name \<and> name \<noteq> ''.'' \<and> name \<noteq> ''..'')"

text \<open>What the system refuses in a path: a NUL character, 4096 bytes or more.\<close>

definition invalidPath :: "string \<Rightarrow> error option" where
  "invalidPath s =
     (if CHR 0x00 \<in> set s then Some EINVAL
      else if 4096 \<le> length s then Some ENAMETOOLONG
      else None)"

subsection \<open>The disk\<close>

definition isDir :: "filesystem \<Rightarrow> path \<Rightarrow> bool" where
  "isDir fs p = (p = [] \<or> map_of fs p = Some Dir)"

text \<open>
  \<^verbatim>\<open>stat\<close> of a relative path, walked from the directory \<open>p\<close>: every segment entered
  must be a directory, only the last may be a file.
\<close>

fun stat :: "path \<Rightarrow> string list \<Rightarrow> filesystem \<Rightarrow> error + node" where
  "stat p [] fs = Inr Dir"
| "stat p (s # ss) fs =
     (if s = [] \<or> s = ''.'' then stat p ss fs
      else if s = ''..'' then stat (butlast p) ss fs
      else if 255 < length s then Inl ENAMETOOLONG
      else (case map_of fs (p @ [s]) of
              None \<Rightarrow> Inl ENOENT
            | Some Dir \<Rightarrow> stat (p @ [s]) ss fs
            | Some (File c) \<Rightarrow> if ss = [] then Inr (File c) else Inl ENOTDIR))"

text \<open>
  \<^verbatim>\<open>mkdir(path, {recursive: true})\<close> of a relative path, walked from the directory \<open>p\<close>:
  every directory that the walk enters and does not find is made. A file on the way,
  or a segment of more than 255 bytes, ends it with the error, and what was made
  before stays.
\<close>

fun mkdirs :: "path \<Rightarrow> string list \<Rightarrow> filesystem \<Rightarrow> error option \<times> filesystem" where
  "mkdirs p [] fs = (None, fs)"
| "mkdirs p (s # ss) fs =
     (if s = [] \<or> s = ''.'' then mkdirs p ss fs
      else if s = ''..'' then mkdirs (butlast p) ss fs
      else if 255 < length s then (Some ENAMETOOLONG, fs)
      else (case map_of fs (p @ [s]) of
              None \<Rightarrow> mkdirs (p @ [s]) ss (fs @ [(p @ [s], Dir)])
            | Some Dir \<Rightarrow> mkdirs (p @ [s]) ss fs
            | Some (File c) \<Rightarrow> (Some ENOTDIR, fs)))"

text \<open>\<^verbatim>\<open>readData('creds.json')\<close>: the content of the file, \<^verbatim>\<open>null\<close> when reading fails.\<close>

definition readCreds :: "filesystem \<Rightarrow> path \<Rightarrow> creds option" where
  "readCreds fs p =
     (case map_of fs (p @ [''creds.json'']) of Some (File c) \<Rightarrow> Some c | _ \<Rightarrow> None)"


text \<open>
  Modelled from the spec: \<^verbatim>\<open>FileUtils.deleteFolderRecursive\<close> (\<^verbatim>\<open>src/services/FileUtils\<close>) is
  not among the sources. The spec has the manager delete the credential material
  through the credential store on logout, so the folder at the path and all that is
  under it are removed, and nothing else is.
\<close>

definition deleteFolderRecursive :: "path \<Rightarrow> filesystem \<Rightarrow> filesystem" where
  "deleteFolderRecursive p fs = filter (\<lambda>e. \<not> prefix p (fst e)) fs"

subsection \<open>The library calls\<close>

text \<open>
  \<^verbatim>\<open>useMultiFileAuthState('tokens/' + name)\<close> of the transport library. It looks at the
  folder with \<^verbatim>\<open>stat\<close>, whose failure it ignores; it throws when there is something that
  is not a directory, makes the folder and its parents when \<^verbatim>\<open>stat\<close> found nothing, and
  then reads \<^verbatim>\<open>creds.json\<close>, falling back to fresh credentials. The result is the thrown
  error or the credentials read, and the disk as the call leaves it.
\<close>

definition useMultiFileAuthState ::
    "path \<Rightarrow> string \<Rightarrow> filesystem \<Rightarrow> (error + creds option) \<times> filesystem" where
  "useMultiFileAuthState wd name fs =
     (case invalidPath (''tokens/'' @ name) of
        Some e \<Rightarrow> (Inl e, fs)
      | None \<Rightarrow>
          (case stat wd (authSegments name) fs of
             Inr (File c) \<Rightarrow> (Inl NotADirectory, fs)
           | Inr Dir \<Rightarrow> (Inr (readCreds fs (authFolder wd name)), fs)
           | Inl e \<Rightarrow>
               (case mkdirs wd (authSegments name) fs of
                  (Some e', fs') \<Rightarrow> (Inl e', fs')
                | (None, fs') \<Rightarrow> (Inr (readCreds fs' (authFolder wd name)), fs'))))"

text \<open>
  \<^verbatim>\<open>saveCreds\<close>, as returned by \<^verbatim>\<open>useMultiFileAuthState\<close>: it writes \<^verbatim>\<open>creds.json\<close> into the
  folder. The write fails, changing nothing, when the folder is not there or a
  directory is in the place of the file; the listener drops the rejection.
\<close>

definition saveCreds :: "string \<Rightarrow> creds \<Rightarrow> manager \<Rightarrow> manager" where
  "saveCreds name c st =
     (let p = authFolder (cwd st) name
      in if invalidPath (''tokens/'' @ name @ ''/creds.json'') = None
            \<and> isDir (files st) p \<and> map_of (files st) (p @ [''creds.json'']) \<noteq> Some Dir
         then st\<lparr>files := AList.update (p @ [''creds.json'']) (File c) (files st)\<rparr>
         else st)"

text \<open>
  \<^verbatim>\<open>makeWASocket({auth: state})\<close>: a new socket, numbered by the call. What goes wrong in
  the transport arrives later, as a \<^verbatim>\<open>close\<close> update of the socket.
\<close>

definition makeWASocket :: "string \<Rightarrow> creds option \<Rightarrow> manager \<Rightarrow> WASocket \<times> manager" where
  "makeWASocket name auth st = (length (opened st), st\<lparr>opened := opened st @ [(name, auth)]\<rparr>)"

text \<open>\<^verbatim>\<open>Subject.next(update)\<close>: every current observer is handed the update, in order.\<close>

definition Subject_next :: "observer list \<Rightarrow> ConnectionState \<Rightarrow> manager \<Rightarrow> manager" where
  "Subject_next obs update st = st\<lparr>delivered := delivered st @ map (\<lambda>ob. (ob, update)) obs\<rparr>"

text \<open>
  \<^verbatim>\<open>connectionUpdateSubjects\<close> is a plain object, so reading it at one of these names
  finds the member inherited from \<^verbatim>\<open>Object.prototype\<close>: a value that is truthy and is
  not a Subject.
\<close>

definition objectPrototypeKeys :: "string list" where
  "objectPrototypeKeys =
     [''constructor'', ''__defineGetter__'', ''__defineSetter__'', ''hasOwnProperty'',
      ''__lookupGetter__'', ''__lookupSetter__'', ''isPrototypeOf'', ''propertyIsEnumerable'',
      ''toString'', ''valueOf'', ''__proto__'', ''toLocaleString'']"

subsection \<open>Reading a state\<close>

definition isLive :: "manager \<Rightarrow> WASocket \<Rightarrow> bool" where
  "isLive st h = (h < length (opened st) \<and> h \<notin> set (ended st))"

definition nameOf :: "manager \<Rightarrow> WASocket \<Rightarrow> string" where
  "nameOf st h = fst (opened st ! h)"

definition liveHandles :: "manager \<Rightarrow> string \<Rightarrow> WASocket list" where
  "liveHandles st name =
     filter (\<lambda>h. nameOf st h = name \<and> h \<notin> set (ended st)) [0..<length (opened st)]"

text \<open>The credentials stored for a name, and its folder: absent, or there with them.\<close>

definition storedCreds :: "manager \<Rightarrow> string \<Rightarrow> creds option" where
  "storedCreds st name = readCreds (files st) (authFolder (cwd st) name)"

definition folderOf :: "manager \<Rightarrow> string \<Rightarrow> creds option option" where
  "folderOf st name =
     (if isDir (files st) (authFolder (cwd st) name) then Some (storedCreds st name) else None)"

definition loads :: "manager \<Rightarrow> string \<Rightarrow> bool" where
  "loads st name =
     (case fst (useMultiFileAuthState (cwd st) name (files st)) of
        Inl e \<Rightarrow> False | Inr auth \<Rightarrow> True)"

definition subscribers :: "manager \<Rightarrow> string \<Rightarrow> observer list" where
  "subscribers st name =
     (if name \<in> set objectPrototypeKeys then []
      else (case connectionUpdateSubjects st name of None \<Rightarrow> [] | Some obs \<Rightarrow> obs))"

definition received :: "manager \<Rightarrow> observer \<Rightarrow> ConnectionState list" where
  "received st ob = map snd (filter (\<lambda>d. fst d = ob) (delivered st))"

definition inFlight :: "manager \<Rightarrow> string \<Rightarrow> nat" where
  "inFlight st name = length (filter (\<lambda>t. fst t = name) (pending st))"


subsection \<open>The methods of the class\<close>

text \<open>
  The constructor: \<^verbatim>\<open>tokensFolder\<close> is \<^verbatim>\<open>path.resolve(__dirname, '..', '..', '..', 'tokens')\<close>.
\<close>

record environment =
  moduleDir :: path
  workingDir :: path
  disk :: filesystem

definition initial :: "environment \<Rightarrow> manager" where
  "initial env =
     \<lparr>sockets = Map.empty, connectionUpdateSubjects = Map.empty,
      tokensFolder = resolveSegs (moduleDir env) [''..'', ''..'', ''..'', ''tokens''],
      cwd = workingDir env, files = disk env,
      opened = [], ended = [], delivered = [], pending = []\<rparr>"

text \<open>
  \<^verbatim>\<open>createSocketWhatsApp\<close>, from its \<^verbatim>\<open>await\<close> on: load the auth state, open the socket,
  register the two listeners (their effect is \<open>step\<close> below), store the socket under
  the name, resolve. Nothing is tested before \<^verbatim>\<open>sockets.set\<close>. The Promise is built from
  \<^verbatim>\<open>resolve\<close> alone around an \<^verbatim>\<open>async\<close> function, so when the load throws it is never
  settled. Before the \<^verbatim>\<open>await\<close> the method only logs.
\<close>

definition createSocketWhatsApp :: "string \<Rightarrow> manager \<Rightarrow> settlement \<times> manager" where
  "createSocketWhatsApp name st =
     (case useMultiFileAuthState (cwd st) name (files st) of
        (Inl e, fs) \<Rightarrow> (Pending, st\<lparr>files := fs\<rparr>)
      | (Inr state, fs) \<Rightarrow>
          (let (socketWhatsApp, st1) = makeWASocket name state (st\<lparr>files := fs\<rparr>);
               st2 = st1\<lparr>sockets := (sockets st1)(name \<mapsto> socketWhatsApp)\<rparr>
           in (Resolved, st2)))"

definition resolveTokensFolderPath :: "string \<Rightarrow> manager \<Rightarrow> path" where
  "resolveTokensFolderPath name st = pathResolve (tokensFolder st) name"

definition handleLoggedOut :: "string \<Rightarrow> manager \<Rightarrow> manager" where
  "handleLoggedOut name st =
     st\<lparr>files := deleteFolderRecursive (resolveTokensFolderPath name st) (files st)\<rparr>"

text \<open>
  The end of \<^verbatim>\<open>handleConnectionUpdate\<close>: the update goes to the subject of the name, if
  the object has something under the name. What is inherited has no \<^verbatim>\<open>next\<close>, and the
  call throws.
\<close>

definition emitUpdate :: "string \<Rightarrow> ConnectionState \<Rightarrow> manager \<Rightarrow> settlement \<times> manager" where
  "emitUpdate name update st =
     (if name \<in> set objectPrototypeKeys then (Rejected TypeError, st)
      else (case connectionUpdateSubjects st name of
              None \<Rightarrow> (Resolved, st)
            | Some obs \<Rightarrow> (Resolved, Subject_next obs update st)))"

text \<open>
  \<^verbatim>\<open>handleConnectionUpdate\<close>, when nothing else runs during its \<^verbatim>\<open>await\<close>: on \<^verbatim>\<open>close\<close> the
  entry of the name is deleted, then the status code picks the branch; \<^verbatim>\<open>open\<close> only
  logs; then the update is emitted. An \<^verbatim>\<open>await\<close> that never ends leaves the handler
  there.
\<close>

definition handleConnectionUpdate ::
    "string \<Rightarrow> ConnectionState \<Rightarrow> manager \<Rightarrow> settlement \<times> manager" where
  "handleConnectionUpdate name update st =
     (let (r, st1) =
        (if connection update = Some Close then
           (let st0 = st\<lparr>sockets := (sockets st)(name := None)\<rparr>
            in if statusCode update = Some loggedOut then (Resolved, handleLoggedOut name st0)
               else if statusCode update = Some restartRequired then createSocketWhatsApp name st0
               else (Resolved, st0))
         else (Resolved, st))
      in case r of
           Resolved \<Rightarrow> emitUpdate name update st1
         | Rejected e \<Rightarrow> (Rejected e, st1)
         | Pending \<Rightarrow> (Pending, st1))"

text \<open>
  The same method in the two parts that the scheduler runs: up to the \<^verbatim>\<open>await\<close>, which
  only the reconnection reaches, and from the \<^verbatim>\<open>await\<close> on.
\<close>

definition awaitsReconnect :: "ConnectionState \<Rightarrow> bool" where
  "awaitsReconnect update =
     (connection update = Some Close \<and> statusCode update \<noteq> Some loggedOut
      \<and> statusCode update = Some restartRequired)"

definition handleConnectionUpdate_begin :: "string \<Rightarrow> ConnectionState \<Rightarrow> manager \<Rightarrow> manager" where
  "handleConnectionUpdate_begin name update st =
     (if connection update = Some Close then
        (let st0 = st\<lparr>sockets := (sockets st)(name := None)\<rparr>
         in if statusCode update = Some loggedOut then handleLoggedOut name st0 else st0)
      else st)"

definition handleConnectionUpdate_resume ::
    "string \<Rightarrow> ConnectionState \<Rightarrow> manager \<Rightarrow> settlement \<times> manager" where
  "handleConnectionUpdate_resume name update st =
     (case createSocketWhatsApp name st of
        (Resolved, st1) \<Rightarrow> emitUpdate name update st1
      | (Rejected e, st1) \<Rightarrow> (Rejected e, st1)
      | (Pending, st1) \<Rightarrow> (Pending, st1))"

text \<open>
  \<^verbatim>\<open>getConnectionUpdateObservable\<close>: a Subject is made when the object has nothing under
  the name; the state afterwards (what is returned is the value under the name).
\<close>

definition getConnectionUpdateObservable :: "string \<Rightarrow> manager \<Rightarrow> manager" where
  "getConnectionUpdateObservable name st =
     (if name \<in> set objectPrototypeKeys then st
      else (case connectionUpdateSubjects st name of
              None \<Rightarrow> st\<lparr>connectionUpdateSubjects := (connectionUpdateSubjects st)(name \<mapsto> [])\<rparr>
            | Some obs \<Rightarrow> st))"


definition getSocketByName :: "string \<Rightarrow> manager \<Rightarrow> WASocket option" where
  "getSocketByName name st = sockets st name"

subsection \<open>Callers, the scheduler and the transport\<close>

text \<open>
  \<^verbatim>\<open>getConnectionUpdateObservable(name).subscribe(ob)\<close>: the observer joins the subject
  that the method returns; a plain Subject hands a new observer nothing. What is
  inherited has no \<^verbatim>\<open>subscribe\<close>: the caller gets a \<^verbatim>\<open>TypeError\<close> and nothing changes.
\<close>

definition subscribe :: "string \<Rightarrow> observer \<Rightarrow> manager \<Rightarrow> manager" where
  "subscribe name ob st =
     (if name \<in> set objectPrototypeKeys then st
      else (let st1 = getConnectionUpdateObservable name st
            in st1\<lparr>connectionUpdateSubjects :=
                     (connectionUpdateSubjects st1)(name \<mapsto> subscribers st1 name @ [ob])\<rparr>))"

text \<open>
  What can happen to a manager.
  \<^item> A caller calls \<^verbatim>\<open>createSocketWhatsApp\<close>: the call is suspended at its \<^verbatim>\<open>await\<close>.
  \<^item> A suspended call of a caller is resumed.
  \<^item> A live socket emits \<^verbatim>\<open>connection.update\<close>: the listener that
    \<^verbatim>\<open>createSocketWhatsApp\<close> registered on it runs \<^verbatim>\<open>handleConnectionUpdate\<close> with the name
    it captured, to the end or to the \<^verbatim>\<open>await\<close> of the reconnection. A socket that emits
    \<^verbatim>\<open>close\<close> has ended.
  \<^item> A suspended reconnection is resumed, and its handler emits the update.
  \<^item> A live socket emits \<^verbatim>\<open>creds.update\<close>.
  \<^item> A caller subscribes.
\<close>

datatype input =
    CreateSession string
  | ResumeCreate string
  | ConnectionUpdate WASocket ConnectionState
  | ResumeUpdate string ConnectionState
  | CredsUpdate WASocket creds
  | Subscribe string observer

definition step :: "input \<Rightarrow> manager \<Rightarrow> manager" where
  "step i st =
     (case i of
        CreateSession name \<Rightarrow> st\<lparr>pending := pending st @ [(name, None)]\<rparr>
      | ResumeCreate name \<Rightarrow>
          if (name, None) \<in> set (pending st) then
            snd (createSocketWhatsApp name (st\<lparr>pending := remove1 (name, None) (pending st)\<rparr>))
          else st
      | ConnectionUpdate h update \<Rightarrow>
          if isLive st h then
            (let st1 = handleConnectionUpdate_begin (nameOf st h) update
                         (if connection update = Some Close then st\<lparr>ended := h # ended st\<rparr>
                          else st)
             in if awaitsReconnect update
                then st1\<lparr>pending := pending st1 @ [(nameOf st h, Some update)]\<rparr>
                else snd (emitUpdate (nameOf st h) update st1))
          else st
      | ResumeUpdate name update \<Rightarrow>
          if (name, Some update) \<in> set (pending st) then
            snd (handleConnectionUpdate_resume name update
                   (st\<lparr>pending := remove1 (name, Some update) (pending st)\<rparr>))
          else st
      | CredsUpdate h c \<Rightarrow> if isLive st h then saveCreds (nameOf st h) c st else st
      | Subscribe name ob \<Rightarrow> subscribe name ob st)"

fun run :: "input list \<Rightarrow> manager \<Rightarrow> manager" where
  "run [] st = st"
| "run (i # is) st = run is (step i st)"

text \<open>The calls of \<^verbatim>\<open>createSocketWhatsApp\<close> that callers make for a name in a run.\<close>

definition creates :: "string \<Rightarrow> input list \<Rightarrow> nat" where
  "creates name is = length (filter (\<lambda>i. i = CreateSession name) is)"

text \<open>The updates that the inputs of a run bring to the emission.\<close>

fun updatesOf :: "input list \<Rightarrow> ConnectionState list" where
  "updatesOf [] = []"
| "updatesOf (ConnectionUpdate h update # is) =
     (if awaitsReconnect update then updatesOf is else update # updatesOf is)"
| "updatesOf (ResumeUpdate name update # is) = update # updatesOf is"
| "updatesOf (_ # is) = updatesOf is"

fun subscribesOb :: "observer \<Rightarrow> input list \<Rightarrow> bool" where
  "subscribesOb ob [] = False"
| "subscribesOb ob (Subscribe name ob' # is) = (ob' = ob \<or> subscribesOb ob is)"
| "subscribesOb ob (_ # is) = subscribesOb ob is"

text \<open>
  A manager just constructed by a process started in the project folder \<^verbatim>\<open>/app\<close>, with
  the class in \<^verbatim>\<open>/app/src/modules/whatsapp\<close> and no \<^verbatim>\<open>tokens\<close> folder yet.
\<close>

abbreviation fresh :: manager where
  "fresh \<equiv> initial \<lparr>moduleDir = [''app'', ''src'', ''modules'', ''whatsapp''],
                     workingDir = [''app''], disk = [([''app''], Dir)]\<rparr>"

lemmas model_defs =
  step_def createSocketWhatsApp_def handleConnectionUpdate_def handleConnectionUpdate_begin_def
  handleConnectionUpdate_resume_def emitUpdate_def awaitsReconnect_def makeWASocket_def
  useMultiFileAuthState_def invalidPath_def authSegments_def authFolder_def pathResolve_def
  isAbsolute_def isDir_def readCreds_def deleteFolderRecursive_def Subject_next_def
  objectPrototypeKeys_def initial_def isLive_def nameOf_def
  handleLoggedOut_def resolveTokensFolderPath_def storedCreds_def loads_def
  subscribers_def subscribe_def getConnectionUpdateObservable_def saveCreds_def
  loggedOut_def restartRequired_def Let_def


section \<open>The disk under the library calls\<close>

lemma loggedOut_neq_restartRequired: "loggedOut \<noteq> restartRequired"
  by (simp add: loggedOut_def restartRequired_def)

lemma mkdirs_preserves:
  "mkdirs p ss fs = (r, fs') \<Longrightarrow> map_of fs q = Some x \<Longrightarrow> map_of fs' q = Some x"
proof (induction p ss fs rule: mkdirs.induct)
  case (1 p fs)
  then show ?case by simp
next
  case (2 p s ss fs)
  show ?case
  proof (cases "s = [] \<or> s = ''.''")
    case True
    with 2 show ?thesis by simp
  next
    case triv: False
    show ?thesis
    proof (cases "s = ''..''")
      case True
      with triv 2 show ?thesis by simp
    next
      case up: False
      show ?thesis
      proof (cases "255 < length s")
        case True
        with triv up 2 show ?thesis by simp
      next
        case short: False
        show ?thesis
        proof (cases "map_of fs (p @ [s])")
          case None
          moreover from None "2.prems"(2) have "map_of (fs @ [(p @ [s], Dir)]) q = Some x"
            by (simp add: map_add_def)
          ultimately show ?thesis
            using triv up short 2 by simp
        next
          case (Some n)
          with triv up short 2 show ?thesis by (cases n) simp_all
        qed
      qed
    qed
  qed
qed

lemma mkdirs_only_dirs:
  "mkdirs p ss fs = (r, fs') \<Longrightarrow> map_of fs' q = Some (File c) \<Longrightarrow> map_of fs q = Some (File c)"
proof (induction p ss fs rule: mkdirs.induct)
  case (1 p fs)
  then show ?case by simp
next
  case (2 p s ss fs)
  show ?case
  proof (cases "s = [] \<or> s = ''.''")
    case True
    with 2 show ?thesis by simp
  next
    case triv: False
    show ?thesis
    proof (cases "s = ''..''")
      case True
      with triv 2 show ?thesis by simp
    next
      case up: False
      show ?thesis
      proof (cases "255 < length s")
        case True
        with triv up 2 show ?thesis by simp
      next
        case short: False
        show ?thesis
        proof (cases "map_of fs (p @ [s])")
          case None
          with triv up short 2 have "map_of (fs @ [(p @ [s], Dir)]) q = Some (File c)"
            by simp
          then show ?thesis
            by (auto simp: map_add_def split: option.splits if_splits)
        next
          case (Some n)
          with triv up short 2 show ?thesis by (cases n) simp_all
        qed
      qed
    qed
  qed
qed

lemma stat_after_mkdirs:
  "mkdirs p ss fs = (None, fs') \<Longrightarrow> stat p ss fs' = Inr Dir"
proof (induction p ss fs rule: mkdirs.induct)
  case (1 p fs)
  then show ?case by simp
next
  case (2 p s ss fs)
  show ?case
  proof (cases "s = [] \<or> s = ''.''")
    case True
    with 2 show ?thesis by simp
  next
    case triv: False
    show ?thesis
    proof (cases "s = ''..''")
      case True
      with triv 2 show ?thesis by simp
    next
      case up: False
      show ?thesis
      proof (cases "255 < length s")
        case True
        with triv up 2 show ?thesis by simp
      next
        case short: False
        show ?thesis
        proof (cases "map_of fs (p @ [s])")
          case None
          with triv up short 2
          have rest: "mkdirs (p @ [s]) ss (fs @ [(p @ [s], Dir)]) = (None, fs')" by simp
          have "map_of (fs @ [(p @ [s], Dir)]) (p @ [s]) = Some Dir"
            using None by (simp add: map_add_def)
          from mkdirs_preserves [OF rest this] have "map_of fs' (p @ [s]) = Some Dir" .
          moreover from None triv up short 2 rest have "stat (p @ [s]) ss fs' = Inr Dir"
            by simp
          ultimately show ?thesis using triv up short by simp
        next
          case (Some n)
          show ?thesis
          proof (cases n)
            case Dir
            with Some triv up short 2
            have rest: "mkdirs (p @ [s]) ss fs = (None, fs')" by simp
            from Some Dir have "map_of fs (p @ [s]) = Some Dir" by simp
            from mkdirs_preserves [OF rest this] have "map_of fs' (p @ [s]) = Some Dir" .
            moreover from Some Dir triv up short 2 rest have "stat (p @ [s]) ss fs' = Inr Dir"
              by simp
            ultimately show ?thesis using triv up short by simp
          next
            case (File c)
            with Some triv up short 2 show ?thesis by simp
          qed
        qed
      qed
    qed
  qed
qed

lemma useMultiFileAuthState_preserves:
  assumes "useMultiFileAuthState wd name fs = (r, fs')" and "map_of fs q = Some x"
  shows "map_of fs' q = Some x"
  using assms
  by (auto simp: useMultiFileAuthState_def split: option.splits sum.splits node.splits
      prod.splits dest: mkdirs_preserves)

lemma useMultiFileAuthState_only_dirs:
  assumes "useMultiFileAuthState wd name fs = (r, fs')" and "map_of fs' q = Some (File c)"
  shows "map_of fs q = Some (File c)"
  using assms
  by (auto simp: useMultiFileAuthState_def split: option.splits sum.splits node.splits
      prod.splits dest: mkdirs_only_dirs)

lemma useMultiFileAuthState_readCreds:
  assumes "useMultiFileAuthState wd name fs = (r, fs')"
  shows "readCreds fs' p = readCreds fs p"
proof (cases "map_of fs (p @ [''creds.json''])")
  case None
  have "map_of fs' (p @ [''creds.json'']) \<noteq> Some (File c)" for c
    using useMultiFileAuthState_only_dirs [OF assms] None by fastforce
  with None show ?thesis
    by (auto simp: readCreds_def split: option.splits node.splits)
next
  case (Some x)
  with useMultiFileAuthState_preserves [OF assms] show ?thesis
    by (simp add: readCreds_def)
qed

lemma useMultiFileAuthState_isDir:
  assumes "useMultiFileAuthState wd name fs = (r, fs')" and "isDir fs p"
  shows "isDir fs' p"
  using assms useMultiFileAuthState_preserves [OF assms(1), of p Dir]
  by (auto simp: isDir_def)

lemma useMultiFileAuthState_result:
  assumes "useMultiFileAuthState wd name fs = (Inr auth, fs')"
  shows "auth = readCreds fs (authFolder wd name)"
proof -
  from assms have "auth = readCreds fs' (authFolder wd name)"
    by (auto simp: useMultiFileAuthState_def split: option.splits sum.splits node.splits
        prod.splits)
  with useMultiFileAuthState_readCreds [OF assms] show ?thesis by simp
qed

lemma useMultiFileAuthState_again:
  assumes "useMultiFileAuthState wd name fs = (Inr auth, fs')"
  shows "useMultiFileAuthState wd name fs' = (Inr auth, fs')"
proof -
  have creds: "readCreds fs' (authFolder wd name) = auth"
    using useMultiFileAuthState_result [OF assms] useMultiFileAuthState_readCreds [OF assms]
    by simp
  from assms have valid: "invalidPath (''tokens/'' @ name) = None"
    by (auto simp: useMultiFileAuthState_def split: option.splits)
  from assms have "stat wd (authSegments name) fs' = Inr Dir"
    by (auto simp: useMultiFileAuthState_def stat_after_mkdirs
        split: option.splits sum.splits node.splits prod.splits)
  with valid creds show ?thesis
    by (simp add: useMultiFileAuthState_def)
qed

section \<open>Paths of plain names\<close>

lemma splitPath_plain: "CHR ''/'' \<notin> set s \<Longrightarrow> splitPath s = [s]"
  by (induction s) auto

lemma authSegments_plain: "CHR ''/'' \<notin> set name \<Longrightarrow> authSegments name = [''tokens'', name]"
  by (simp add: authSegments_def splitPath_plain)

section \<open>What each method does to each field\<close>

lemma createSocketWhatsApp_fields:
  "fst (createSocketWhatsApp name st) = (if loads st name then Resolved else Pending)"
  "sockets (snd (createSocketWhatsApp name st)) =
     (if loads st name then (sockets st)(name \<mapsto> length (opened st)) else sockets st)"
  "opened (snd (createSocketWhatsApp name st)) =
     (if loads st name then opened st @ [(name, storedCreds st name)] else opened st)"
  "files (snd (createSocketWhatsApp name st)) = snd (useMultiFileAuthState (cwd st) name (files st))"
  "connectionUpdateSubjects (snd (createSocketWhatsApp name st)) = connectionUpdateSubjects st"
  "ended (snd (createSocketWhatsApp name st)) = ended st"
  "delivered (snd (createSocketWhatsApp name st)) = delivered st"
  "pending (snd (createSocketWhatsApp name st)) = pending st"
  "cwd (snd (createSocketWhatsApp name st)) = cwd st"
  "tokensFolder (snd (createSocketWhatsApp name st)) = tokensFolder st"
proof -
  obtain r fs where u: "useMultiFileAuthState (cwd st) name (files st) = (r, fs)"
    by (cases "useMultiFileAuthState (cwd st) name (files st)")
  show "fst (createSocketWhatsApp name st) = (if loads st name then Resolved else Pending)"
    "sockets (snd (createSocketWhatsApp name st)) =
       (if loads st name then (sockets st)(name \<mapsto> length (opened st)) else sockets st)"
    "files (snd (createSocketWhatsApp name st)) = snd (useMultiFileAuthState (cwd st) name (files st))"
    "connectionUpdateSubjects (snd (createSocketWhatsApp name st)) = connectionUpdateSubjects st"
    "ended (snd (createSocketWhatsApp name st)) = ended st"
    "delivered (snd (createSocketWhatsApp name st)) = delivered st"
    "pending (snd (createSocketWhatsApp name st)) = pending st"
    "cwd (snd (createSocketWhatsApp name st)) = cwd st"
    "tokensFolder (snd (createSocketWhatsApp name st)) = tokensFolder st"
    using u by (cases r; simp add: createSocketWhatsApp_def makeWASocket_def loads_def)+
  show "opened (snd (createSocketWhatsApp name st)) =
     (if loads st name then opened st @ [(name, storedCreds st name)] else opened st)"
  proof (cases r)
    case (Inl e)
    with u show ?thesis by (simp add: createSocketWhatsApp_def loads_def)
  next
    case (Inr auth)
    with u useMultiFileAuthState_result [of "cwd st" name "files st" auth fs] show ?thesis
      by (simp add: createSocketWhatsApp_def makeWASocket_def loads_def storedCreds_def)
  qed
qed

lemma loads_cong: "cwd a = cwd b \<Longrightarrow> files a = files b \<Longrightarrow> loads a name = loads b name"
  by (simp add: loads_def)

lemma storedCreds_cong:
  "cwd a = cwd b \<Longrightarrow> files a = files b \<Longrightarrow> storedCreds a name = storedCreds b name"
  by (simp add: storedCreds_def)

lemma emitUpdate_fields:
  "fst (emitUpdate name update st) =
     (if name \<in> set objectPrototypeKeys then Rejected TypeError else Resolved)"
  "delivered (snd (emitUpdate name update st)) =
     delivered st @ map (\<lambda>ob. (ob, update)) (subscribers st name)"
  "sockets (snd (emitUpdate name update st)) = sockets st"
  "opened (snd (emitUpdate name update st)) = opened st"
  "files (snd (emitUpdate name update st)) = files st"
  "connectionUpdateSubjects (snd (emitUpdate name update st)) = connectionUpdateSubjects st"
  "ended (snd (emitUpdate name update st)) = ended st"
  "pending (snd (emitUpdate name update st)) = pending st"
  "cwd (snd (emitUpdate name update st)) = cwd st"
  "tokensFolder (snd (emitUpdate name update st)) = tokensFolder st"
  by (simp_all add: emitUpdate_def subscribers_def Subject_next_def split: option.splits)

lemma handleConnectionUpdate_begin_fields:
  "sockets (handleConnectionUpdate_begin name update st) =
     (if connection update = Some Close then (sockets st)(name := None) else sockets st)"
  "files (handleConnectionUpdate_begin name update st) =
     (if connection update = Some Close \<and> statusCode update = Some loggedOut
      then deleteFolderRecursive (resolveTokensFolderPath name st) (files st) else files st)"
  "opened (handleConnectionUpdate_begin name update st) = opened st"
  "connectionUpdateSubjects (handleConnectionUpdate_begin name update st) = connectionUpdateSubjects st"
  "ended (handleConnectionUpdate_begin name update st) = ended st"
  "delivered (handleConnectionUpdate_begin name update st) = delivered st"
  "pending (handleConnectionUpdate_begin name update st) = pending st"
  "cwd (handleConnectionUpdate_begin name update st) = cwd st"
  "tokensFolder (handleConnectionUpdate_begin name update st) = tokensFolder st"
  by (simp_all add: handleConnectionUpdate_begin_def handleLoggedOut_def
      resolveTokensFolderPath_def Let_def)

text \<open>The handler is its two parts, run one after the other.\<close>

lemma handleConnectionUpdate_split:
  "handleConnectionUpdate name update st =
     (if awaitsReconnect update
      then handleConnectionUpdate_resume name update (handleConnectionUpdate_begin name update st)
      else emitUpdate name update (handleConnectionUpdate_begin name update st))"
proof -
  obtain r st1 where c: "createSocketWhatsApp name (st\<lparr>sockets := (sockets st)(name := None)\<rparr>) = (r, st1)"
    by (cases "createSocketWhatsApp name (st\<lparr>sockets := (sockets st)(name := None)\<rparr>)")
  then show ?thesis
    using loggedOut_neq_restartRequired
    by (cases r)
      (auto simp: handleConnectionUpdate_def handleConnectionUpdate_begin_def
        handleConnectionUpdate_resume_def awaitsReconnect_def Let_def)
qed

lemma subscribers_cong:
  "connectionUpdateSubjects a = connectionUpdateSubjects b \<Longrightarrow> subscribers a name = subscribers b name"
  by (simp add: subscribers_def)

lemma handleConnectionUpdate_resume_fields:
  "fst (handleConnectionUpdate_resume name update st) =
     (if \<not> loads st name then Pending
      else if name \<in> set objectPrototypeKeys then Rejected TypeError else Resolved)"
  "sockets (snd (handleConnectionUpdate_resume name update st)) =
     (if loads st name then (sockets st)(name \<mapsto> length (opened st)) else sockets st)"
  "opened (snd (handleConnectionUpdate_resume name update st)) =
     (if loads st name then opened st @ [(name, storedCreds st name)] else opened st)"
  "files (snd (handleConnectionUpdate_resume name update st)) =
     snd (useMultiFileAuthState (cwd st) name (files st))"
  "delivered (snd (handleConnectionUpdate_resume name update st)) =
     (if loads st name then delivered st @ map (\<lambda>ob. (ob, update)) (subscribers st name)
      else delivered st)"
  "connectionUpdateSubjects (snd (handleConnectionUpdate_resume name update st)) = connectionUpdateSubjects st"
  "ended (snd (handleConnectionUpdate_resume name update st)) = ended st"
  "pending (snd (handleConnectionUpdate_resume name update st)) = pending st"
  "cwd (snd (handleConnectionUpdate_resume name update st)) = cwd st"
  "tokensFolder (snd (handleConnectionUpdate_resume name update st)) = tokensFolder st"
proof -
  have eq: "handleConnectionUpdate_resume name update st =
    (if loads st name then emitUpdate name update (snd (createSocketWhatsApp name st))
     else (Pending, snd (createSocketWhatsApp name st)))"
    using createSocketWhatsApp_fields(1) [of name st]
    by (cases "createSocketWhatsApp name st")
      (auto simp: handleConnectionUpdate_resume_def split: settlement.splits)
  have subs: "subscribers (snd (createSocketWhatsApp name st)) name = subscribers st name"
    by (rule subscribers_cong) (simp add: createSocketWhatsApp_fields)
  show "fst (handleConnectionUpdate_resume name update st) =
     (if \<not> loads st name then Pending
      else if name \<in> set objectPrototypeKeys then Rejected TypeError else Resolved)"
    "sockets (snd (handleConnectionUpdate_resume name update st)) =
     (if loads st name then (sockets st)(name \<mapsto> length (opened st)) else sockets st)"
    "opened (snd (handleConnectionUpdate_resume name update st)) =
     (if loads st name then opened st @ [(name, storedCreds st name)] else opened st)"
    "files (snd (handleConnectionUpdate_resume name update st)) =
     snd (useMultiFileAuthState (cwd st) name (files st))"
    "delivered (snd (handleConnectionUpdate_resume name update st)) =
     (if loads st name then delivered st @ map (\<lambda>ob. (ob, update)) (subscribers st name)
      else delivered st)"
    "connectionUpdateSubjects (snd (handleConnectionUpdate_resume name update st)) = connectionUpdateSubjects st"
    "ended (snd (handleConnectionUpdate_resume name update st)) = ended st"
    "pending (snd (handleConnectionUpdate_resume name update st)) = pending st"
    "cwd (snd (handleConnectionUpdate_resume name update st)) = cwd st"
    "tokensFolder (snd (handleConnectionUpdate_resume name update st)) = tokensFolder st"
    by (simp_all add: eq emitUpdate_fields createSocketWhatsApp_fields subs)
qed

lemma handleConnectionUpdate_fields:
  "fst (handleConnectionUpdate name update st) =
     (if awaitsReconnect update \<and> \<not> loads st name then Pending
      else if name \<in> set objectPrototypeKeys then Rejected TypeError else Resolved)"
  "sockets (snd (handleConnectionUpdate name update st)) =
     (if connection update = Some Close then
        (if awaitsReconnect update \<and> loads st name
         then (sockets st)(name \<mapsto> length (opened st)) else (sockets st)(name := None))
      else sockets st)"
  "opened (snd (handleConnectionUpdate name update st)) =
     (if awaitsReconnect update \<and> loads st name
      then opened st @ [(name, storedCreds st name)] else opened st)"
  "files (snd (handleConnectionUpdate name update st)) =
     (if connection update = Some Close then
        (if statusCode update = Some loggedOut
         then deleteFolderRecursive (resolveTokensFolderPath name st) (files st)
         else if statusCode update = Some restartRequired
         then snd (useMultiFileAuthState (cwd st) name (files st)) else files st)
      else files st)"
  "delivered (snd (handleConnectionUpdate name update st)) =
     (if awaitsReconnect update \<and> \<not> loads st name then delivered st
      else delivered st @ map (\<lambda>ob. (ob, update)) (subscribers st name))"
  "connectionUpdateSubjects (snd (handleConnectionUpdate name update st)) = connectionUpdateSubjects st"
  "ended (snd (handleConnectionUpdate name update st)) = ended st"
  "pending (snd (handleConnectionUpdate name update st)) = pending st"
  "cwd (snd (handleConnectionUpdate name update st)) = cwd st"
  "tokensFolder (snd (handleConnectionUpdate name update st)) = tokensFolder st"
proof -
  let ?b = "handleConnectionUpdate_begin name update st"
  have l: "awaitsReconnect update \<Longrightarrow> loads ?b name = loads st name"
    by (rule loads_cong)
      (simp_all add: handleConnectionUpdate_begin_fields awaitsReconnect_def
        loggedOut_def restartRequired_def)
  have c: "awaitsReconnect update \<Longrightarrow> storedCreds ?b name = storedCreds st name"
    by (rule storedCreds_cong)
      (simp_all add: handleConnectionUpdate_begin_fields awaitsReconnect_def
        loggedOut_def restartRequired_def)
  have s: "subscribers ?b name = subscribers st name"
    by (rule subscribers_cong) (simp add: handleConnectionUpdate_begin_fields)
  note facts = handleConnectionUpdate_split handleConnectionUpdate_resume_fields
    emitUpdate_fields handleConnectionUpdate_begin_fields l c s
  show "fst (handleConnectionUpdate name update st) =
     (if awaitsReconnect update \<and> \<not> loads st name then Pending
      else if name \<in> set objectPrototypeKeys then Rejected TypeError else Resolved)"
    by (simp add: facts)
  show "sockets (snd (handleConnectionUpdate name update st)) =
     (if connection update = Some Close then
        (if awaitsReconnect update \<and> loads st name
         then (sockets st)(name \<mapsto> length (opened st)) else (sockets st)(name := None))
      else sockets st)"
    by (auto simp: facts awaitsReconnect_def)
  show "opened (snd (handleConnectionUpdate name update st)) =
     (if awaitsReconnect update \<and> loads st name
      then opened st @ [(name, storedCreds st name)] else opened st)"
    by (simp add: facts)
  show "files (snd (handleConnectionUpdate name update st)) =
     (if connection update = Some Close then
        (if statusCode update = Some loggedOut
         then deleteFolderRecursive (resolveTokensFolderPath name st) (files st)
         else if statusCode update = Some restartRequired
         then snd (useMultiFileAuthState (cwd st) name (files st)) else files st)
      else files st)"
    using loggedOut_neq_restartRequired by (auto simp: facts awaitsReconnect_def)
  show "delivered (snd (handleConnectionUpdate name update st)) =
     (if awaitsReconnect update \<and> \<not> loads st name then delivered st
      else delivered st @ map (\<lambda>ob. (ob, update)) (subscribers st name))"
    by (simp add: facts)
  show "connectionUpdateSubjects (snd (handleConnectionUpdate name update st)) = connectionUpdateSubjects st"
    "ended (snd (handleConnectionUpdate name update st)) = ended st"
    "pending (snd (handleConnectionUpdate name update st)) = pending st"
    "cwd (snd (handleConnectionUpdate name update st)) = cwd st"
    "tokensFolder (snd (handleConnectionUpdate name update st)) = tokensFolder st"
    by (simp_all add: facts)
qed

lemma saveCreds_fields:
  "sockets (saveCreds name c st) = sockets st"
  "connectionUpdateSubjects (saveCreds name c st) = connectionUpdateSubjects st"
  "opened (saveCreds name c st) = opened st"
  "ended (saveCreds name c st) = ended st"
  "delivered (saveCreds name c st) = delivered st"
  "pending (saveCreds name c st) = pending st"
  by (simp_all add: saveCreds_def Let_def)

lemma subscribe_fields:
  "sockets (subscribe name ob st) = sockets st"
  "connectionUpdateSubjects (subscribe name ob st) =
     (if name \<in> set objectPrototypeKeys then connectionUpdateSubjects st
      else (connectionUpdateSubjects st)(name \<mapsto> subscribers st name @ [ob]))"
  "opened (subscribe name ob st) = opened st"
  "ended (subscribe name ob st) = ended st"
  "delivered (subscribe name ob st) = delivered st"
  "pending (subscribe name ob st) = pending st"
  "files (subscribe name ob st) = files st"
  by (auto simp: subscribe_def getConnectionUpdateObservable_def subscribers_def Let_def
      split: option.splits)

section \<open>Live sockets and suspended calls\<close>

lemma length_filter_remove1:
  "x \<in> set xs \<Longrightarrow>
     length (filter P (remove1 x xs)) + (if P x then 1 else 0) = length (filter P xs)"
  by (induction xs) auto

lemma length_filter_without:
  "distinct xs \<Longrightarrow> h \<in> set xs \<Longrightarrow> P h \<Longrightarrow>
     length (filter (\<lambda>x. P x \<and> x \<noteq> h) xs) + 1 = length (filter P xs)"
proof (induction xs)
  case Nil
  then show ?case by simp
next
  case (Cons x xs)
  show ?case
  proof (cases "x = h")
    case True
    with Cons.prems have "h \<notin> set xs" by simp
    then have "filter (\<lambda>x. P x \<and> x \<noteq> h) xs = filter P xs"
      by (intro filter_cong) auto
    with True Cons.prems show ?thesis by simp
  next
    case False
    with Cons show ?thesis by auto
  qed
qed

lemma liveHandles_cong:
  "opened a = opened b \<Longrightarrow> ended a = ended b \<Longrightarrow> liveHandles a n = liveHandles b n"
  by (simp add: liveHandles_def nameOf_def)

lemma liveHandles_opened:
  assumes "opened b = opened a @ [(name, auth)]" and "ended b = ended a"
  shows "liveHandles b n =
     liveHandles a n @ (if n = name \<and> length (opened a) \<notin> set (ended a) then [length (opened a)] else [])"
proof -
  have "filter (\<lambda>h. nameOf b h = n \<and> h \<notin> set (ended b)) [0..<length (opened a)]
      = filter (\<lambda>h. nameOf a h = n \<and> h \<notin> set (ended a)) [0..<length (opened a)]"
    using assms by (intro filter_cong) (auto simp: nameOf_def nth_append)
  with assms show ?thesis
    by (auto simp: liveHandles_def nameOf_def)
qed

lemma liveHandles_ended:
  assumes "isLive st h"
  shows "length (liveHandles (st\<lparr>ended := h # ended st\<rparr>) n) + (if nameOf st h = n then 1 else 0)
           = length (liveHandles st n)"
proof (cases "nameOf st h = n")
  case False
  then have "liveHandles (st\<lparr>ended := h # ended st\<rparr>) n = liveHandles st n"
    unfolding liveHandles_def by (intro filter_cong) (auto simp: nameOf_def)
  with False show ?thesis by simp
next
  case True
  let ?P = "\<lambda>x. nameOf st x = n \<and> x \<notin> set (ended st)"
  have "liveHandles (st\<lparr>ended := h # ended st\<rparr>) n
      = filter (\<lambda>x. ?P x \<and> x \<noteq> h) [0..<length (opened st)]"
    unfolding liveHandles_def by (intro filter_cong) (auto simp: nameOf_def)
  moreover have "length (filter (\<lambda>x. ?P x \<and> x \<noteq> h) [0..<length (opened st)]) + 1
      = length (filter ?P [0..<length (opened st)])"
    using assms True by (intro length_filter_without) (auto simp: isLive_def)
  ultimately show ?thesis
    using True by (simp add: liveHandles_def)
qed

lemma liveHandles_createSocketWhatsApp:
  "length (liveHandles (snd (createSocketWhatsApp name st)) n)
     \<le> length (liveHandles st n) + (if n = name then 1 else 0)"
proof (cases "loads st name")
  case True
  then have "opened (snd (createSocketWhatsApp name st)) = opened st @ [(name, storedCreds st name)]"
    and "ended (snd (createSocketWhatsApp name st)) = ended st"
    by (simp_all add: createSocketWhatsApp_fields)
  from liveHandles_opened [OF this] show ?thesis by simp
next
  case False
  then have "liveHandles (snd (createSocketWhatsApp name st)) n = liveHandles st n"
    by (intro liveHandles_cong) (simp_all add: createSocketWhatsApp_fields)
  then show ?thesis by simp
qed

lemma liveHandles_resume:
  "length (liveHandles (snd (handleConnectionUpdate_resume name update st)) n)
     \<le> length (liveHandles st n) + (if n = name then 1 else 0)"
proof -
  have "liveHandles (snd (handleConnectionUpdate_resume name update st)) n
      = liveHandles (snd (createSocketWhatsApp name st)) n"
    by (intro liveHandles_cong)
      (simp_all add: handleConnectionUpdate_resume_fields createSocketWhatsApp_fields)
  with liveHandles_createSocketWhatsApp [of name st n] show ?thesis by simp
qed

lemma potential_step:
  "length (liveHandles (step i st) n) + inFlight (step i st) n
     \<le> length (liveHandles st n) + inFlight st n + (if i = CreateSession n then 1 else 0)"
proof (cases i)
  case (CreateSession name)
  have "liveHandles (st\<lparr>pending := pending st @ [(name, None)]\<rparr>) n = liveHandles st n"
    by (intro liveHandles_cong) simp_all
  with CreateSession show ?thesis
    by (auto simp: step_def inFlight_def)
next
  case (ResumeCreate name)
  show ?thesis
  proof (cases "(name, None) \<in> set (pending st)")
    case False
    with ResumeCreate show ?thesis by (simp add: step_def)
  next
    case True
    let ?st = "st\<lparr>pending := remove1 (name, None) (pending st)\<rparr>"
    have live: "liveHandles ?st n = liveHandles st n"
      by (intro liveHandles_cong) simp_all
    have "inFlight ?st n + (if name = n then 1 else 0) = inFlight st n"
      using length_filter_remove1 [OF True, of "\<lambda>t. fst t = n"] by (simp add: inFlight_def)
    moreover have "inFlight (snd (createSocketWhatsApp name ?st)) n = inFlight ?st n"
      by (simp add: inFlight_def createSocketWhatsApp_fields)
    moreover note liveHandles_createSocketWhatsApp [of name ?st n]
    ultimately show ?thesis
      using ResumeCreate True live by (auto simp: step_def split: if_splits)
  qed
next
  case (ConnectionUpdate h update)
  show ?thesis
  proof (cases "isLive st h")
    case False
    with ConnectionUpdate show ?thesis by (simp add: step_def)
  next
    case True
    let ?m = "if connection update = Some Close then st\<lparr>ended := h # ended st\<rparr> else st"
    let ?b = "handleConnectionUpdate_begin (nameOf st h) update ?m"
    have pb: "pending ?b = pending st"
      by (simp add: handleConnectionUpdate_begin_fields)
    have lb: "liveHandles ?b n = liveHandles ?m n"
      by (intro liveHandles_cong) (simp_all add: handleConnectionUpdate_begin_fields)
    show ?thesis
    proof (cases "awaitsReconnect update")
      case False
      have "liveHandles (snd (emitUpdate (nameOf st h) update ?b)) n = liveHandles ?b n"
        by (intro liveHandles_cong) (simp_all add: emitUpdate_fields)
      moreover have "inFlight (snd (emitUpdate (nameOf st h) update ?b)) n = inFlight st n"
        by (simp add: inFlight_def emitUpdate_fields pb)
      moreover have "length (liveHandles ?m n) \<le> length (liveHandles st n)"
        using liveHandles_ended [OF True, of n] by (auto split: if_splits)
      ultimately show ?thesis
        using ConnectionUpdate True False lb by (simp add: step_def Let_def)
    next
      case await: True
      then have close: "connection update = Some Close"
        by (simp add: awaitsReconnect_def)
      let ?p = "?b\<lparr>pending := pending ?b @ [(nameOf st h, Some update)]\<rparr>"
      have "liveHandles ?p n = liveHandles ?b n"
        by (intro liveHandles_cong) simp_all
      moreover have "inFlight ?p n = inFlight st n + (if nameOf st h = n then 1 else 0)"
        by (simp add: inFlight_def pb)
      moreover have "length (liveHandles ?m n) + (if nameOf st h = n then 1 else 0)
          = length (liveHandles st n)"
        using liveHandles_ended [OF True, of n] close by simp
      ultimately show ?thesis
        using ConnectionUpdate True await lb by (simp add: step_def Let_def)
    qed
  qed
next
  case (ResumeUpdate name update)
  show ?thesis
  proof (cases "(name, Some update) \<in> set (pending st)")
    case False
    with ResumeUpdate show ?thesis by (simp add: step_def)
  next
    case True
    let ?st = "st\<lparr>pending := remove1 (name, Some update) (pending st)\<rparr>"
    have live: "liveHandles ?st n = liveHandles st n"
      by (intro liveHandles_cong) simp_all
    have "inFlight ?st n + (if name = n then 1 else 0) = inFlight st n"
      using length_filter_remove1 [OF True, of "\<lambda>t. fst t = n"] by (simp add: inFlight_def)
    moreover have "inFlight (snd (handleConnectionUpdate_resume name update ?st)) n = inFlight ?st n"
      by (simp add: inFlight_def handleConnectionUpdate_resume_fields)
    moreover note liveHandles_resume [of name update ?st n]
    ultimately show ?thesis
      using ResumeUpdate True live by (auto simp: step_def split: if_splits)
  qed
next
  case (CredsUpdate h c)
  have "liveHandles (saveCreds (nameOf st h) c st) n = liveHandles st n"
    by (intro liveHandles_cong) (simp_all add: saveCreds_fields)
  with CredsUpdate show ?thesis
    by (simp add: step_def inFlight_def saveCreds_fields)
next
  case (Subscribe name ob)
  have "liveHandles (subscribe name ob st) n = liveHandles st n"
    by (intro liveHandles_cong) (simp_all add: subscribe_fields)
  with Subscribe show ?thesis
    by (simp add: step_def inFlight_def subscribe_fields)
qed

lemma creates_Cons:
  "creates n (i # is) = (if i = CreateSession n then 1 else 0) + creates n is"
  by (simp add: creates_def)

lemma potential_run:
  "length (liveHandles (run is st) n) + inFlight (run is st) n
     \<le> length (liveHandles st n) + inFlight st n + creates n is"
proof (induction "is" arbitrary: st)
  case Nil
  then show ?case by (simp add: creates_def)
next
  case (Cons i "is")
  have "length (liveHandles (run (i # is) st) n) + inFlight (run (i # is) st) n
      \<le> length (liveHandles (step i st) n) + inFlight (step i st) n + creates n is"
    using Cons.IH [of "step i st"] by simp
  also have "\<dots> \<le> length (liveHandles st n) + inFlight st n
      + (if i = CreateSession n then 1 else 0) + creates n is"
    using potential_step [of i st n] by (rule add_right_mono)
  also have "\<dots> = length (liveHandles st n) + inFlight st n + creates n (i # is)"
    unfolding creates_Cons by (rule add.assoc)
  finally show ?case .
qed

section \<open>A quiet name stays quiet\<close>





section \<open>What an observer receives\<close>

lemma received_of_broadcast:
  "map snd (filter (\<lambda>d. fst d = ob) (map (\<lambda>ob'. (ob', update)) obs))
     = replicate (count_list obs ob) update"
  by (induction obs) simp_all

lemma received_Subject_next:
  "delivered st' = delivered st @ map (\<lambda>ob. (ob, update)) obs \<Longrightarrow>
     received st' ob = received st ob @ replicate (count_list obs ob) update"
  by (simp add: received_def received_of_broadcast)

lemma received_cong: "delivered a = delivered b \<Longrightarrow> received a ob = received b ob"
  by (simp add: received_def)

lemma received_step:
  "received (step i st) ob =
     received st ob @
       (case i of
          ConnectionUpdate h update \<Rightarrow>
            if isLive st h \<and> \<not> awaitsReconnect update
            then replicate (count_list (subscribers st (nameOf st h)) ob) update else []
        | ResumeUpdate name update \<Rightarrow>
            if (name, Some update) \<in> set (pending st) \<and> loads st name
            then replicate (count_list (subscribers st name) ob) update else []
        | _ \<Rightarrow> [])"
proof (cases i)
  case (CreateSession name)
  then show ?thesis by (simp add: step_def received_def)
next
  case (ResumeCreate name)
  then show ?thesis by (simp add: step_def received_def createSocketWhatsApp_fields)
next
  case (ConnectionUpdate h update)
  let ?m = "if connection update = Some Close then st\<lparr>ended := h # ended st\<rparr> else st"
  let ?b = "handleConnectionUpdate_begin (nameOf st h) update ?m"
  have b: "received ?b ob = received st ob"
    by (rule received_cong) (simp add: handleConnectionUpdate_begin_fields)
  have p: "received (?b\<lparr>pending := pending ?b @ [(nameOf st h, Some update)]\<rparr>) ob = received ?b ob"
    by (rule received_cong) simp
  have subs: "subscribers ?b (nameOf st h) = subscribers st (nameOf st h)"
    by (rule subscribers_cong) (simp add: handleConnectionUpdate_begin_fields)
  have "received (snd (emitUpdate (nameOf st h) update ?b)) ob
      = received ?b ob @ replicate (count_list (subscribers ?b (nameOf st h)) ob) update"
    by (rule received_Subject_next) (rule emitUpdate_fields)
  with ConnectionUpdate b p subs show ?thesis
    by (simp add: step_def Let_def)
next
  case (ResumeUpdate name update)
  let ?st = "st\<lparr>pending := remove1 (name, Some update) (pending st)\<rparr>"
  have l: "loads ?st name = loads st name"
    by (rule loads_cong) simp_all
  have subs: "subscribers ?st name = subscribers st name"
    by (rule subscribers_cong) simp
  have r: "received ?st ob = received st ob"
    by (rule received_cong) simp
  show ?thesis
  proof (cases "loads st name")
    case True
    with l have "delivered (snd (handleConnectionUpdate_resume name update ?st))
        = delivered ?st @ map (\<lambda>ob. (ob, update)) (subscribers ?st name)"
      by (simp add: handleConnectionUpdate_resume_fields)
    from received_Subject_next [OF this] ResumeUpdate True subs r show ?thesis
      by (simp add: step_def)
  next
    case False
    with l have "received (snd (handleConnectionUpdate_resume name update ?st)) ob = received ?st ob"
      by (intro received_cong) (simp add: handleConnectionUpdate_resume_fields)
    with ResumeUpdate False r show ?thesis
      by (simp add: step_def)
  qed
next
  case (CredsUpdate h c)
  then show ?thesis by (simp add: step_def received_def saveCreds_fields)
next
  case (Subscribe name ob')
  then show ?thesis by (simp add: step_def received_def subscribe_fields)
qed

lemma subscribers_step:
  "subscribers (step i st) n =
     (case i of
        Subscribe name ob \<Rightarrow>
          if n = name \<and> name \<notin> set objectPrototypeKeys then subscribers st n @ [ob]
          else subscribers st n
      | _ \<Rightarrow> subscribers st n)"
proof (cases i)
  case (ConnectionUpdate h update)
  then show ?thesis
    by (simp add: step_def Let_def)
      (auto intro!: subscribers_cong simp: emitUpdate_fields handleConnectionUpdate_begin_fields)
next
  case (Subscribe name ob)
  then show ?thesis
    by (auto simp: step_def subscribers_def subscribe_fields)
qed (auto simp: step_def intro!: subscribers_cong
      simp: createSocketWhatsApp_fields handleConnectionUpdate_resume_fields saveCreds_fields)

text \<open>
  What one input hands an observer: copies of the update it brings to the emission, as
  many as the observer has subscriptions to the name at most.
\<close>

lemma received_step_bounded:
  assumes "\<forall>n. count_list (subscribers st n) ob \<le> k"
  shows "\<exists>c u. c \<le> k \<and> received (step i st) ob = received st ob @ replicate c u
           \<and> (c = 0 \<or> updatesOf (i # is) = u # updatesOf is)"
proof (cases i)
  case (ConnectionUpdate h update)
  show ?thesis
  proof (cases "isLive st h \<and> \<not> awaitsReconnect update")
    case True
    with ConnectionUpdate assms show ?thesis
      by (intro exI [of _ "count_list (subscribers st (nameOf st h)) ob"] exI [of _ update])
        (simp add: received_step)
  next
    case False
    with ConnectionUpdate show ?thesis
      by (intro exI [of _ 0] exI [of _ update]) (auto simp: received_step)
  qed
next
  case (ResumeUpdate name update)
  show ?thesis
  proof (cases "(name, Some update) \<in> set (pending st) \<and> loads st name")
    case True
    with ResumeUpdate assms show ?thesis
      by (intro exI [of _ "count_list (subscribers st name) ob"] exI [of _ update])
        (simp add: received_step)
  next
    case False
    with ResumeUpdate show ?thesis
      by (intro exI [of _ 0] exI [of _ update]) (auto simp: received_step)
  qed
qed (auto simp: received_step)

lemma received_run:
  assumes "\<forall>n. count_list (subscribers st n) ob \<le> k" and "\<not> subscribesOb ob is"
  shows "\<exists>ys. received (run is st) ob = received st ob @ ys
           \<and> length ys \<le> k * length (updatesOf is)
           \<and> (k \<le> 1 \<longrightarrow> subseq ys (updatesOf is))"
  using assms
proof (induction "is" arbitrary: st)
  case Nil
  then show ?case by simp
next
  case (Cons i "is")
  from Cons.prems have later: "\<not> subscribesOb ob is"
    by (cases i) auto
  from Cons.prems have "\<forall>n. count_list (subscribers (step i st) n) ob \<le> k"
    by (cases i) (auto simp: subscribers_step)
  from Cons.IH [OF this later] obtain ys where
    ys: "received (run is (step i st)) ob = received (step i st) ob @ ys"
      "length ys \<le> k * length (updatesOf is)" "k \<le> 1 \<longrightarrow> subseq ys (updatesOf is)"
    by blast
  from received_step_bounded [OF Cons.prems(1), of i "is"] obtain c u where
    cu: "c \<le> k" "received (step i st) ob = received st ob @ replicate c u"
      "c = 0 \<or> updatesOf (i # is) = u # updatesOf is"
    by blast
  have len: "length (updatesOf is) \<le> length (updatesOf (i # is))"
    by (cases i) auto
  have sub: "subseq (updatesOf is) (updatesOf (i # is))"
    by (cases i) auto
  show ?case
  proof (cases "c = 0")
    case True
    have "k * length (updatesOf is) \<le> k * length (updatesOf (i # is))"
      using len by simp
    with ys(2) have "length ys \<le> k * length (updatesOf (i # is))"
      by linarith
    moreover have "k \<le> 1 \<longrightarrow> subseq ys (updatesOf (i # is))"
      using ys(3) sub by (auto intro: subseq_order.trans)
    ultimately show ?thesis
      using True ys(1) cu(2) by (intro exI [of _ ys]) simp
  next
    case False
    with cu(3) have up: "updatesOf (i # is) = u # updatesOf is" by simp
    have "length (replicate c u @ ys) \<le> k * length (u # updatesOf is)"
      using cu(1) ys(2) by simp
    moreover have "k \<le> 1 \<longrightarrow> subseq (replicate c u @ ys) (u # updatesOf is)"
    proof
      assume k: "k \<le> 1"
      with cu(1) False have "c = 1" by linarith
      with ys(3) k show "subseq (replicate c u @ ys) (u # updatesOf is)" by simp
    qed
    ultimately show ?thesis
      using ys(1) cu(2) up by (intro exI [of _ "replicate c u @ ys"]) simp
  qed
qed

lemma received_step_set:
  "\<exists>zs. received (step i st) ob = received st ob @ zs
          \<and> set zs \<subseteq> set (updatesOf (i # is))
          \<and> set (updatesOf is) \<subseteq> set (updatesOf (i # is))"
  by (cases i) (auto simp: received_step)

lemma received_run_set:
  "\<exists>ys. received (run is st) ob = received st ob @ ys \<and> set ys \<subseteq> set (updatesOf is)"
proof (induction "is" arbitrary: st)
  case Nil
  then show ?case by simp
next
  case (Cons i "is")
  from Cons.IH [of "step i st"] obtain ys where
    ys: "received (run is (step i st)) ob = received (step i st) ob @ ys"
      "set ys \<subseteq> set (updatesOf is)"
    by blast
  from received_step_set [of i st ob "is"] obtain zs where
    zs: "received (step i st) ob = received st ob @ zs"
      "set zs \<subseteq> set (updatesOf (i # is))"
      "set (updatesOf is) \<subseteq> set (updatesOf (i # is))"
    by blast
  from ys zs show ?case
    by (intro exI [of _ "zs @ ys"]) auto
qed

lemma never_subscribed:
  assumes "\<not> subscribesOb ob is"
  shows "\<forall>n. count_list (subscribers (run is (initial env)) n) ob = 0"
proof -
  have "\<forall>n. count_list (subscribers st n) ob = 0 \<Longrightarrow>
          \<forall>n. count_list (subscribers (run is st) n) ob = 0" for st
    using assms
  proof (induction "is" arbitrary: st)
    case Nil
    then show ?case by simp
  next
    case (Cons i "is")
    from Cons.prems have "\<forall>n. count_list (subscribers (step i st) n) ob = 0"
      by (cases i) (auto simp: subscribers_step)
    moreover from Cons.prems have "\<not> subscribesOb ob is"
      by (cases i) auto
    ultimately show ?case using Cons.IH by simp
  qed
  then show ?thesis by (simp add: subscribers_def initial_def)
qed

lemma run_append: "run (xs @ ys) st = run ys (run xs st)"
  by (induction xs arbitrary: st) simp_all

section \<open>Listing a directory\<close>


section \<open>The claims\<close>

subsection \<open>C1: creating a session that is already registered\<close>

text \<open>
  Claim C1 has a call of \<^verbatim>\<open>createSocketWhatsApp\<close> fail with \<^verbatim>\<open>AlreadyExists\<close> when the
  name is registered. The method does not look at the registry and never rejects with
  \<^verbatim>\<open>AlreadyExists\<close>. Whenever the auth state of the name loads, the call resolves, makes
  exactly one \<^verbatim>\<open>makeWASocket\<close> call for the name with the stored credentials, and stores
  the new socket under the name in place of any earlier one; a second call for the
  name then does the same, so both succeed and the registry keeps the socket of the
  second.
\<close>

theorem createSocketWhatsApp_never_refuses:
  "fst (createSocketWhatsApp name st) \<noteq> Rejected AlreadyExists
   \<and> (loads st name \<longrightarrow>
        fst (createSocketWhatsApp name st) = Resolved
        \<and> opened (snd (createSocketWhatsApp name st)) = opened st @ [(name, storedCreds st name)]
        \<and> getSocketByName name (snd (createSocketWhatsApp name st)) = Some (length (opened st))
        \<and> fst (createSocketWhatsApp name (snd (createSocketWhatsApp name st))) = Resolved
        \<and> getSocketByName name
             (snd (createSocketWhatsApp name (snd (createSocketWhatsApp name st))))
           = Some (Suc (length (opened st))))"
proof -
  have "loads (snd (createSocketWhatsApp name st)) name" if l: "loads st name"
  proof -
    from l obtain auth fs where u: "useMultiFileAuthState (cwd st) name (files st) = (Inr auth, fs)"
      by (cases "useMultiFileAuthState (cwd st) name (files st)")
        (auto simp: loads_def split: sum.splits)
    from useMultiFileAuthState_again [OF u] u show ?thesis
      by (simp add: loads_def createSocketWhatsApp_fields)
  qed
  then show ?thesis
    by (simp add: createSocketWhatsApp_fields getSocketByName_def)
qed

theorem createSocketWhatsApp_never_refuses_witness:
  "loads fresh ''acct1''
   \<and> fst (createSocketWhatsApp ''acct1'' fresh) = Resolved
   \<and> getSocketByName ''acct1'' (snd (createSocketWhatsApp ''acct1'' fresh)) = Some 0
   \<and> getSocketByName ''acct1''
        (snd (createSocketWhatsApp ''acct1'' (snd (createSocketWhatsApp ''acct1'' fresh)))) = Some 1"
proof -
  have l: "loads fresh ''acct1''"
    by (simp add: model_defs)
  from l createSocketWhatsApp_never_refuses [of "''acct1''" fresh] show ?thesis
    by (simp add: initial_def)
qed

text \<open>
  On a fresh manager, the second call for \<^verbatim>\<open>acct1\<close> finds socket 0 registered, is not
  rejected with \<^verbatim>\<open>AlreadyExists\<close>, and opens a second connection.
\<close>

theorem second_createSocketWhatsApp_is_not_refused:
  "getSocketByName ''acct1'' (snd (createSocketWhatsApp ''acct1'' fresh)) = Some 0
   \<and> fst (createSocketWhatsApp ''acct1'' (snd (createSocketWhatsApp ''acct1'' fresh)))
       \<noteq> Rejected AlreadyExists
   \<and> opened (snd (createSocketWhatsApp ''acct1'' (snd (createSocketWhatsApp ''acct1'' fresh))))
       = [(''acct1'', None), (''acct1'', None)]"
  by (simp add: model_defs getSocketByName_def)

subsection \<open>C2: live sockets per name\<close>

text \<open>
  Claim C2 has at most one live socket per name in every reachable state. The manager
  neither tests for nor ends an earlier socket, so every call of
  \<^verbatim>\<open>createSocketWhatsApp\<close> can add one. What holds in every state reached from a
  manager just constructed, whatever the order of calls, resumptions and transport
  events: the live sockets of a name, together with the calls for it that are
  suspended, are no more than the calls of \<^verbatim>\<open>createSocketWhatsApp\<close> that callers have
  made for it. Transport events and reconnections never add one; with one call for a
  name there is at most one live socket of it.
\<close>

theorem live_handles_bounded_by_creates:
  "length (liveHandles (run is (initial env)) name) + inFlight (run is (initial env)) name
     \<le> creates name is"
  using potential_run [of "is" "initial env" name]
  by (simp add: liveHandles_def inFlight_def initial_def)

text \<open>Two calls for \<^verbatim>\<open>acct1\<close> on a fresh manager leave the sockets 0 and 1 both live.\<close>

theorem two_creates_leave_two_live_handles:
  "liveHandles
     (run [CreateSession ''acct1'', ResumeCreate ''acct1'',
           CreateSession ''acct1'', ResumeCreate ''acct1''] fresh) ''acct1''
     = [0, 1]"
  by (simp add: model_defs liveHandles_def upt_rec)

subsection \<open>C3: logout\<close>

text \<open>
  Claim C3: after a \<^verbatim>\<open>close\<close> update with \<^verbatim>\<open>DisconnectReason.loggedOut\<close> the credentials
  of the name are gone from the tokens folder and the name from the registry. The
  registry entry is deleted for every name. The credentials are written under the
  working directory, at \<^verbatim>\<open>tokens/<name>\<close>, and deleted at
  \<^verbatim>\<open>path.resolve(tokensFolder, name)\<close>: for the session \<^verbatim>\<open>/x\<close> of a process started in the
  project folder these are \<^verbatim>\<open>/app/tokens/x\<close> and \<^verbatim>\<open>/x\<close>, and the credentials saved by
  the session are still there after its logout.
\<close>

theorem logout_leaves_credentials_of_absolute_name:
  "storedCreds
     (run [CreateSession ''/x'', ResumeCreate ''/x'', CredsUpdate 0 5,
           ConnectionUpdate 0 \<lparr>connection = Some Close, statusCode = Some loggedOut, qr = None\<rparr>]
        fresh) ''/x'' = Some 5
   \<and> folderOf
     (run [CreateSession ''/x'', ResumeCreate ''/x'', CredsUpdate 0 5,
           ConnectionUpdate 0 \<lparr>connection = Some Close, statusCode = Some loggedOut, qr = None\<rparr>]
        fresh) ''/x'' = Some (Some 5)
   \<and> getSocketByName ''/x''
     (run [CreateSession ''/x'', ResumeCreate ''/x'', CredsUpdate 0 5,
           ConnectionUpdate 0 \<lparr>connection = Some Close, statusCode = Some loggedOut, qr = None\<rparr>]
        fresh) = None"
  by (simp add: model_defs folderOf_def getSocketByName_def)

text \<open>
  Where the two paths are the same folder, for a name of one segment in a process whose
  working directory holds the tokens folder of the class, the logout does remove it.
\<close>

lemma logout_removes_folder_of_plain_name:
  assumes "connection update = Some Close" and "statusCode update = Some loggedOut"
    and "plainName name" and "tokensFolder st = cwd st @ [''tokens'']"
  shows "folderOf (snd (handleConnectionUpdate name update st)) name = None
         \<and> getSocketByName name (snd (handleConnectionUpdate name update st)) = None"
proof -
  from assms(3) have slash: "CHR ''/'' \<notin> set name" and ne: "name \<noteq> []"
    and dots: "name \<noteq> ''.''" "name \<noteq> ''..''"
    by (simp_all add: plainName_def)
  from slash dots ne have auth: "authFolder (cwd st) name = cwd st @ [''tokens'', name]"
    by (simp add: authFolder_def authSegments_plain)
  from slash ne have "\<not> isAbsolute name"
    by (cases name) (auto simp: isAbsolute_def)
  with slash dots ne assms(4)
  have res: "resolveTokensFolderPath name st = cwd st @ [''tokens'', name]"
    by (simp add: resolveTokensFolderPath_def pathResolve_def splitPath_plain)
  have "map_of (deleteFolderRecursive p fs) p = None" for p :: path and fs
    by (auto simp: deleteFolderRecursive_def map_of_eq_None_iff)
  with assms(1,2) auth res show ?thesis
    by (simp add: folderOf_def isDir_def getSocketByName_def handleConnectionUpdate_fields
        awaitsReconnect_def)
qed

subsection \<open>C4: restart\<close>




subsection \<open>C5: any other close\<close>




subsection \<open>C6: the subject of a name\<close>

text \<open>
  Claim C6 has the subject of a name made on the first subscription or the first event.
  For a name that is not a member inherited from \<^verbatim>\<open>Object.prototype\<close>: only
  \<^verbatim>\<open>getConnectionUpdateObservable\<close> makes the subject, storing an empty one when the name
  has none and changing nothing otherwise; the emission at the end of
  \<^verbatim>\<open>handleConnectionUpdate\<close> makes none, resolves, and hands the update to each observer
  now subscribed to the name, once per subscription and in their order, so that an
  update for a name without a subject goes to nobody. The handler as a whole never
  changes the subjects.
\<close>

theorem subject_created_by_subscription_only:
  assumes "name \<notin> set objectPrototypeKeys"
  shows "connectionUpdateSubjects (getConnectionUpdateObservable name st)
           = (connectionUpdateSubjects st)(name \<mapsto> subscribers st name)
         \<and> fst (emitUpdate name update st) = Resolved
         \<and> delivered (snd (emitUpdate name update st))
           = delivered st @ map (\<lambda>ob. (ob, update)) (subscribers st name)
         \<and> connectionUpdateSubjects (snd (emitUpdate name update st)) = connectionUpdateSubjects st
         \<and> connectionUpdateSubjects (snd (handleConnectionUpdate name update st))
           = connectionUpdateSubjects st"
  using assms
  by (auto simp: getConnectionUpdateObservable_def subscribers_def emitUpdate_fields
      handleConnectionUpdate_fields split: option.splits)

theorem subject_created_by_subscription_only_witness:
  "''acct1'' \<notin> set objectPrototypeKeys
   \<and> connectionUpdateSubjects (getConnectionUpdateObservable ''acct1'' fresh) ''acct1'' = Some []
   \<and> fst (emitUpdate ''acct1'' \<lparr>connection = Some Open, statusCode = None, qr = None\<rparr>
        (subscribe ''acct1'' 3 fresh)) = Resolved
   \<and> delivered (snd (emitUpdate ''acct1'' \<lparr>connection = Some Open, statusCode = None, qr = None\<rparr>
        (subscribe ''acct1'' 3 fresh)))
       = [(3, \<lparr>connection = Some Open, statusCode = None, qr = None\<rparr>)]"
proof -
  have k: "''acct1'' \<notin> set objectPrototypeKeys"
    by (simp add: objectPrototypeKeys_def)
  have s: "subscribers (subscribe ''acct1'' 3 fresh) ''acct1'' = [3]"
    and d: "delivered (subscribe ''acct1'' 3 fresh) = []"
    and n: "subscribers fresh ''acct1'' = []"
    by (simp_all add: model_defs)
  from k s d n
    subject_created_by_subscription_only [OF k, of fresh]
    subject_created_by_subscription_only [OF k, of "subscribe ''acct1'' 3 fresh"
      "\<lparr>connection = Some Open, statusCode = None, qr = None\<rparr>"]
  show ?thesis by simp
qed

text \<open>
  The first update of \<^verbatim>\<open>acct1\<close>, before anyone has subscribed, leaves the name without a
  subject.
\<close>

theorem first_update_makes_no_subject:
  "connectionUpdateSubjects
     (run [CreateSession ''acct1'', ResumeCreate ''acct1'',
           ConnectionUpdate 0 \<lparr>connection = Some Open, statusCode = None, qr = None\<rparr>]
        fresh) ''acct1'' = None"
  by (simp add: model_defs)

subsection \<open>C7: no replay\<close>

text \<open>
  Claim C7: an observer that subscribes after an update was published never receives
  it. For an observer that had not subscribed before, all it has received at any later
  time is among the updates brought to the emission after its subscription; when it
  subscribes only once, what it has received is a subsequence of those updates, so no
  update of the past is handed to it, not even one equal to a later update.
\<close>

theorem late_subscriber_receives_no_past_update:
  assumes "\<not> subscribesOb ob past"
  shows "set (received (run (past @ Subscribe name ob # future) (initial env)) ob)
           \<subseteq> set (updatesOf future)
         \<and> (\<not> subscribesOb ob future \<longrightarrow>
              subseq (received (run (past @ Subscribe name ob # future) (initial env)) ob)
                (updatesOf future))"
proof -
  let ?st0 = "run past (initial env)"
  let ?st1 = "step (Subscribe name ob) ?st0"
  have none: "\<forall>n. count_list (subscribers ?st0 n) ob = 0"
    using assms by (rule never_subscribed)
  have "\<forall>n. count_list (subscribers (initial env) n) ob \<le> 0"
    by (simp add: subscribers_def initial_def)
  from received_run [OF this assms]
  have before: "received ?st0 ob = []"
    by (auto simp: received_def initial_def)
  have "received ?st1 ob = received ?st0 ob"
    by (simp add: received_step)
  with before have at_subscription: "received ?st1 ob = []"
    by simp
  from received_run_set [of future ?st1 ob] at_subscription
  have "set (received (run future ?st1) ob) \<subseteq> set (updatesOf future)"
    by auto
  moreover have "subseq (received (run future ?st1) ob) (updatesOf future)"
    if once: "\<not> subscribesOb ob future"
  proof -
    from none have "\<forall>n. count_list (subscribers ?st1 n) ob \<le> 1"
      by (simp add: subscribers_step)
    from received_run [OF this once] at_subscription show ?thesis
      by auto
  qed
  ultimately show ?thesis
    by (simp add: run_append)
qed

theorem late_subscriber_receives_no_past_update_witness:
  "\<not> subscribesOb 7
       [CreateSession ''acct1'', ResumeCreate ''acct1'',
        ConnectionUpdate 0 \<lparr>connection = None, statusCode = None, qr = Some ''XYZ''\<rparr>]
   \<and> \<not> subscribesOb 7 [ConnectionUpdate 0 \<lparr>connection = Some Open, statusCode = None, qr = None\<rparr>]
   \<and> subseq
       (received (run
          ([CreateSession ''acct1'', ResumeCreate ''acct1'',
        ConnectionUpdate 0 \<lparr>connection = None, statusCode = None, qr = Some ''XYZ''\<rparr>]
           @ Subscribe ''acct1'' 7 # [ConnectionUpdate 0 \<lparr>connection = Some Open, statusCode = None, qr = None\<rparr>])
          fresh) 7)
       (updatesOf [ConnectionUpdate 0 \<lparr>connection = Some Open, statusCode = None, qr = None\<rparr>])
   \<and> received (run
          ([CreateSession ''acct1'', ResumeCreate ''acct1'',
        ConnectionUpdate 0 \<lparr>connection = None, statusCode = None, qr = Some ''XYZ''\<rparr>]
           @ Subscribe ''acct1'' 7 # [ConnectionUpdate 0 \<lparr>connection = Some Open, statusCode = None, qr = None\<rparr>])
          fresh) 7
       = [\<lparr>connection = Some Open, statusCode = None, qr = None\<rparr>]"
proof -
  have a: "\<not> subscribesOb 7
       [CreateSession ''acct1'', ResumeCreate ''acct1'',
        ConnectionUpdate 0 \<lparr>connection = None, statusCode = None, qr = Some ''XYZ''\<rparr>]"
    by simp
  have b: "\<not> subscribesOb 7 [ConnectionUpdate 0 \<lparr>connection = Some Open, statusCode = None, qr = None\<rparr>]"
    by simp
  have c: "received (run
          ([CreateSession ''acct1'', ResumeCreate ''acct1'',
        ConnectionUpdate 0 \<lparr>connection = None, statusCode = None, qr = Some ''XYZ''\<rparr>]
           @ Subscribe ''acct1'' 7 # [ConnectionUpdate 0 \<lparr>connection = Some Open, statusCode = None, qr = None\<rparr>])
          fresh) 7
       = [\<lparr>connection = Some Open, statusCode = None, qr = None\<rparr>]"
    by (simp add: model_defs received_def)
  from a b c late_subscriber_receives_no_past_update
    [OF a, of "''acct1''" "[ConnectionUpdate 0 \<lparr>connection = Some Open, statusCode = None, qr = None\<rparr>]"]
  show ?thesis by blast
qed

subsection \<open>C8: the handling does not depend on the transport\<close>

text \<open>
  Claim C8: the handling of a connection update is a function of the manager's state and
  the update alone. Two managers with the same registered names, the same subjects,
  the same disk, working directory and tokens folder, whatever sockets the transport
  has opened or ended for them and whatever was delivered before, handle the same
  update of the same name alike: the same settlement, the same registered names,
  subjects and disk afterwards, the same \<^verbatim>\<open>makeWASocket\<close> calls added and the same
  deliveries added. (The socket stored for a reopened name is the one the transport
  returns, so the registries are compared by their names.)
\<close>

theorem transition_independent_of_transport:
  assumes "dom (sockets st1) = dom (sockets st2)"
    and "connectionUpdateSubjects st1 = connectionUpdateSubjects st2"
    and "files st1 = files st2" and "cwd st1 = cwd st2" and "tokensFolder st1 = tokensFolder st2"
  shows "fst (handleConnectionUpdate name update st1) = fst (handleConnectionUpdate name update st2)
     \<and> dom (sockets (snd (handleConnectionUpdate name update st1)))
       = dom (sockets (snd (handleConnectionUpdate name update st2)))
     \<and> connectionUpdateSubjects (snd (handleConnectionUpdate name update st1))
       = connectionUpdateSubjects (snd (handleConnectionUpdate name update st2))
     \<and> files (snd (handleConnectionUpdate name update st1))
       = files (snd (handleConnectionUpdate name update st2))
     \<and> drop (length (opened st1)) (opened (snd (handleConnectionUpdate name update st1)))
       = drop (length (opened st2)) (opened (snd (handleConnectionUpdate name update st2)))
     \<and> drop (length (delivered st1)) (delivered (snd (handleConnectionUpdate name update st1)))
       = drop (length (delivered st2)) (delivered (snd (handleConnectionUpdate name update st2)))"
proof -
  from assms have "loads st1 name = loads st2 name"
    and "storedCreds st1 name = storedCreds st2 name"
    and "subscribers st1 name = subscribers st2 name"
    and "resolveTokensFolderPath name st1 = resolveTokensFolderPath name st2"
    by (simp_all add: loads_def storedCreds_def subscribers_def resolveTokensFolderPath_def)
  with assms show ?thesis
    by (simp add: handleConnectionUpdate_fields)
qed

theorem transition_independent_of_transport_witness:
  "dom (sockets (run [CreateSession ''acct2'', ResumeCreate ''acct2''] fresh))
     = dom (sockets (run [CreateSession ''acct2'', ResumeCreate ''acct2'',
          CreateSession ''acct2'', ResumeCreate ''acct2''] fresh))
   \<and> connectionUpdateSubjects (run [CreateSession ''acct2'', ResumeCreate ''acct2''] fresh)
     = connectionUpdateSubjects (run [CreateSession ''acct2'', ResumeCreate ''acct2'',
          CreateSession ''acct2'', ResumeCreate ''acct2''] fresh)
   \<and> files (run [CreateSession ''acct2'', ResumeCreate ''acct2''] fresh)
     = files (run [CreateSession ''acct2'', ResumeCreate ''acct2'',
          CreateSession ''acct2'', ResumeCreate ''acct2''] fresh)
   \<and> cwd (run [CreateSession ''acct2'', ResumeCreate ''acct2''] fresh)
     = cwd (run [CreateSession ''acct2'', ResumeCreate ''acct2'',
          CreateSession ''acct2'', ResumeCreate ''acct2''] fresh)
   \<and> tokensFolder (run [CreateSession ''acct2'', ResumeCreate ''acct2''] fresh)
     = tokensFolder (run [CreateSession ''acct2'', ResumeCreate ''acct2'',
          CreateSession ''acct2'', ResumeCreate ''acct2''] fresh)
   \<and> opened (run [CreateSession ''acct2'', ResumeCreate ''acct2''] fresh)
     \<noteq> opened (run [CreateSession ''acct2'', ResumeCreate ''acct2'',
          CreateSession ''acct2'', ResumeCreate ''acct2''] fresh)
   \<and> files (snd (handleConnectionUpdate ''acct2''
         \<lparr>connection = Some Close, statusCode = Some restartRequired, qr = None\<rparr>
         (run [CreateSession ''acct2'', ResumeCreate ''acct2''] fresh)))
     = files (snd (handleConnectionUpdate ''acct2''
         \<lparr>connection = Some Close, statusCode = Some restartRequired, qr = None\<rparr>
         (run [CreateSession ''acct2'', ResumeCreate ''acct2'',
          CreateSession ''acct2'', ResumeCreate ''acct2''] fresh)))
   \<and> drop (length (opened (run [CreateSession ''acct2'', ResumeCreate ''acct2''] fresh)))
        (opened (snd (handleConnectionUpdate ''acct2''
           \<lparr>connection = Some Close, statusCode = Some restartRequired, qr = None\<rparr>
           (run [CreateSession ''acct2'', ResumeCreate ''acct2''] fresh))))
     = drop (length (opened (run [CreateSession ''acct2'', ResumeCreate ''acct2'',
          CreateSession ''acct2'', ResumeCreate ''acct2''] fresh)))
        (opened (snd (handleConnectionUpdate ''acct2''
           \<lparr>connection = Some Close, statusCode = Some restartRequired, qr = None\<rparr>
           (run [CreateSession ''acct2'', ResumeCreate ''acct2'',
          CreateSession ''acct2'', ResumeCreate ''acct2''] fresh))))"
proof -
  have h1: "dom (sockets (run [CreateSession ''acct2'', ResumeCreate ''acct2''] fresh))
     = dom (sockets (run [CreateSession ''acct2'', ResumeCreate ''acct2'',
          CreateSession ''acct2'', ResumeCreate ''acct2''] fresh))"
    by (simp add: model_defs)
  have h2: "connectionUpdateSubjects (run [CreateSession ''acct2'', ResumeCreate ''acct2''] fresh)
     = connectionUpdateSubjects (run [CreateSession ''acct2'', ResumeCreate ''acct2'',
          CreateSession ''acct2'', ResumeCreate ''acct2''] fresh)"
    by (simp add: model_defs)
  have h3: "files (run [CreateSession ''acct2'', ResumeCreate ''acct2''] fresh)
     = files (run [CreateSession ''acct2'', ResumeCreate ''acct2'',
          CreateSession ''acct2'', ResumeCreate ''acct2''] fresh)"
    by (simp add: model_defs)
  have h4: "cwd (run [CreateSession ''acct2'', ResumeCreate ''acct2''] fresh)
     = cwd (run [CreateSession ''acct2'', ResumeCreate ''acct2'',
          CreateSession ''acct2'', ResumeCreate ''acct2''] fresh)"
    by (simp add: model_defs)
  have h5: "tokensFolder (run [CreateSession ''acct2'', ResumeCreate ''acct2''] fresh)
     = tokensFolder (run [CreateSession ''acct2'', ResumeCreate ''acct2'',
          CreateSession ''acct2'', ResumeCreate ''acct2''] fresh)"
    by (simp add: model_defs)
  have h6: "opened (run [CreateSession ''acct2'', ResumeCreate ''acct2''] fresh)
     \<noteq> opened (run [CreateSession ''acct2'', ResumeCreate ''acct2'',
          CreateSession ''acct2'', ResumeCreate ''acct2''] fresh)"
    by (simp add: model_defs)
  from h1 h2 h3 h4 h5 h6
    transition_independent_of_transport [OF h1 h2 h3 h4 h5, of "''acct2''"
      "\<lparr>connection = Some Close, statusCode = Some restartRequired, qr = None\<rparr>"]
  show ?thesis by blast
qed

subsection \<open>C9: the names of the existing sessions\<close>




subsection \<open>C10: closing without logout keeps the credentials\<close>

text \<open>
  Claim C10: on a \<^verbatim>\<open>close\<close> update whose status code is not \<^verbatim>\<open>loggedOut\<close>,
  \<^verbatim>\<open>handleConnectionUpdate\<close> deletes no folder under \<^verbatim>\<open>tokens\<close> and changes no stored
  credentials: a folder that was there, of this name or any other, is there afterwards
  with the same content, and the credentials stored under every name are the same. (On
  \<^verbatim>\<open>restartRequired\<close> a missing folder of the name is made, empty.)
\<close>

theorem close_without_logout_keeps_credentials:
  assumes "connection update = Some Close" and "statusCode update \<noteq> Some loggedOut"
  shows "(folderOf st n \<noteq> None \<longrightarrow>
            folderOf (snd (handleConnectionUpdate name update st)) n = folderOf st n)
         \<and> storedCreds (snd (handleConnectionUpdate name update st)) n = storedCreds st n"
proof (cases "statusCode update = Some restartRequired")
  case False
  with assms show ?thesis
    by (simp add: folderOf_def storedCreds_def handleConnectionUpdate_fields)
next
  case True
  obtain r fs where u: "useMultiFileAuthState (cwd st) name (files st) = (r, fs)"
    by (cases "useMultiFileAuthState (cwd st) name (files st)")
  with True assms show ?thesis
    using useMultiFileAuthState_readCreds [OF u] useMultiFileAuthState_isDir [OF u]
    by (simp add: folderOf_def storedCreds_def handleConnectionUpdate_fields)
qed

theorem close_without_logout_keeps_credentials_witness:
  "connection \<lparr>connection = Some Close, statusCode = Some restartRequired, qr = None\<rparr> = Some Close
   \<and> statusCode \<lparr>connection = Some Close, statusCode = Some restartRequired, qr = None\<rparr> \<noteq> Some loggedOut
   \<and> folderOf (run [CreateSession ''acct2'', ResumeCreate ''acct2'', CredsUpdate 0 5] fresh) ''acct2'' \<noteq> None
   \<and> folderOf (snd (handleConnectionUpdate ''acct2''
        \<lparr>connection = Some Close, statusCode = Some restartRequired, qr = None\<rparr>
        (run [CreateSession ''acct2'', ResumeCreate ''acct2'', CredsUpdate 0 5] fresh))) ''acct2''
       = Some (Some 5)
   \<and> storedCreds (snd (handleConnectionUpdate ''acct2''
        \<lparr>connection = Some Close, statusCode = Some restartRequired, qr = None\<rparr>
        (run [CreateSession ''acct2'', ResumeCreate ''acct2'', CredsUpdate 0 5] fresh))) ''acct2''
       = storedCreds (run [CreateSession ''acct2'', ResumeCreate ''acct2'', CredsUpdate 0 5] fresh) ''acct2''"
proof -
  have a: "connection \<lparr>connection = Some Close, statusCode = Some restartRequired, qr = None\<rparr> = Some Close"
    and b: "statusCode \<lparr>connection = Some Close, statusCode = Some restartRequired, qr = None\<rparr> \<noteq> Some loggedOut"
    by (simp_all add: loggedOut_def restartRequired_def)
  have f: "folderOf (run [CreateSession ''acct2'', ResumeCreate ''acct2'', CredsUpdate 0 5] fresh) ''acct2'' = Some (Some 5)"
    by (simp add: model_defs folderOf_def)
  from a b f close_without_logout_keeps_credentials
    [OF a b, of "(run [CreateSession ''acct2'', ResumeCreate ''acct2'', CredsUpdate 0 5] fresh)" "''acct2''" "''acct2''"]
  show ?thesis by simp
qed

end
